theory Spec2Isabelle
  imports Complex_Main "HOL-Library.Multiset" "HOL-Library.Sublist"
begin

section \<open>Agent scheduler: data model\<close>

text \<open>
  The embedding follows \<^verbatim>\<open>scheduler/scheduler.go\<close> and the package \<^verbatim>\<open>models\<close>.
  Conventions of the embedding:
  \<^item> Go's \<^verbatim>\<open>int\<close> is an unbounded \<open>int\<close> and \<^verbatim>\<open>float64\<close> is a \<open>real\<close>: rounding,
    overflow and the non-finite floats are not modelled. Every concrete input evaluated
    below only produces values that \<^verbatim>\<open>float64\<close> represents exactly.
  \<^item> A \<^verbatim>\<open>time.Time\<close> is an instant in nanoseconds since the Unix epoch together with
    its location; a \<^verbatim>\<open>time.Duration\<close> is a number of nanoseconds.
  \<^item> A \<^verbatim>\<open>*time.Location\<close> that may be nil is a \<open>Location option\<close>.
  \<^item> A slice is a list; the nil slice and the empty slice are both \<open>[]\<close>.
\<close>

subsection \<open>Time zones and instants (package time)\<close>

text \<open>
  A location is the offset in force before its first transition and the ascending list
  of its transitions, each with the Unix second it happens at and the offset (seconds
  east of UTC) in force from then on.
\<close>

record Location =
  firstOffset :: int
  tx :: "(int \<times> int) list"

record Time =
  unixNano :: int
  loc :: Location

definition UTC :: Location where
  "UTC = \<lparr>firstOffset = 0, tx = []\<rparr>"

definition alpha :: int where
  "alpha = - (2 ^ 63)"

definition omega :: int where
  "omega = 2 ^ 63 - 1"

text \<open>
  \<^verbatim>\<open>Location.lookup\<close>: the offset in force at the Unix second \<open>sec\<close> and the
  interval \<open>[start, end)\<close> of seconds in which it is in force.
\<close>

fun lookupFrom :: "int \<Rightarrow> int \<Rightarrow> (int \<times> int) list \<Rightarrow> int \<Rightarrow> int \<times> int \<times> int" where
  "lookupFrom off start [] sec = (off, start, omega)"
| "lookupFrom off start ((when, off') # rest) sec =
     (if sec < when then (off, start, when) else lookupFrom off' when rest sec)"

definition lookup :: "Location \<Rightarrow> int \<Rightarrow> int \<times> int \<times> int" where
  "lookup l sec = lookupFrom (firstOffset l) alpha (tx l) sec"

definition Nanosecond :: int where "Nanosecond = 1"
definition Second :: int where "Second = 1000000000"
definition Hour :: int where "Hour = 3600000000000"

definition minDuration :: int where "minDuration = - (2 ^ 63)"
definition maxDuration :: int where "maxDuration = 2 ^ 63 - 1"

definition Before :: "Time \<Rightarrow> Time \<Rightarrow> bool" where
  "Before t u = (unixNano t < unixNano u)"

definition After :: "Time \<Rightarrow> Time \<Rightarrow> bool" where
  "After t u = (unixNano t > unixNano u)"

definition Add :: "Time \<Rightarrow> int \<Rightarrow> Time" where
  "Add t d = t\<lparr>unixNano := unixNano t + d\<rparr>"

text \<open>\<^verbatim>\<open>Time.Sub\<close> saturates at the largest and smallest duration.\<close>

definition Sub :: "Time \<Rightarrow> Time \<Rightarrow> int" where
  "Sub t u =
     (let d = unixNano t - unixNano u
      in if d > maxDuration then maxDuration
         else if d < minDuration then minDuration
         else d)"

definition Hours :: "int \<Rightarrow> real" where
  "Hours d = real_of_int d / 3600000000000"

definition In :: "Time \<Rightarrow> Location \<Rightarrow> Time" where
  "In t l = t\<lparr>loc := l\<rparr>"

definition unixSec :: "Time \<Rightarrow> int" where
  "unixSec t = unixNano t div 1000000000"

text \<open>The wall-clock reading of an instant in its location, in seconds.\<close>

definition wallSec :: "Time \<Rightarrow> int" where
  "wallSec t = unixSec t + fst (lookup (loc t) (unixSec t))"

definition Time_Hour :: "Time \<Rightarrow> nat" where
  "Time_Hour t = nat ((wallSec t mod 86400) div 3600)"

text \<open>
  \<^verbatim>\<open>time.Date(y, m, d, h, 0, 0, 0, l)\<close> for the wall-clock reading \<open>wall\<close> (seconds, on
  an hour boundary): the reading is first taken as if it were UTC, the offset found
  there is subtracted, and when the second so obtained lies outside the interval of that
  offset, the offset in force at that second is used instead.
\<close>

definition Date :: "int \<Rightarrow> Location \<Rightarrow> Time" where
  "Date wall l =
     (let (offset, start, end) = lookup l wall;
          unix = (if offset \<noteq> 0
                  then (let utc = wall - offset;
                            offset' = (if utc < start \<or> utc \<ge> end
                                       then fst (lookup l utc) else offset)
                        in wall - offset')
                  else wall)
      in \<lparr>unixNano = unix * 1000000000, loc = l\<rparr>)"

text \<open>
  \<^verbatim>\<open>time.Date(t.Year(), t.Month(), t.Day(), t.Hour(), 0, 0, 0, t.Location())\<close>: the
  calendar fields of the reading of \<open>t\<close> with minutes, seconds and nanoseconds set to
  zero are the reading rounded down to the hour.
\<close>

definition hourBoundary :: "Time \<Rightarrow> Time" where
  "hourBoundary t = Date (wallSec t - wallSec t mod 3600) (loc t)"

subsection \<open>Package models\<close>

record CallData =
  CustomerName :: string
  AverageCallDurationSeconds :: int
  StartTime :: Time
  EndTime :: Time
  cd_Location :: "Location option"
  NumberOfCalls :: int
  cd_Priority :: int

record CustomerRequirement =
  Name :: string
  AgentsNeeded :: int
  Location :: "Location option"
  Priority :: int

record ImpactedClient =
  ic_Name :: string
  RequestedAgents :: int
  ic_AllocatedAgents :: int
  ic_UnmetAgents :: int
  ic_Priority :: int

record UnmetDemand =
  Hour_of :: int
  TotalDemand :: int
  AllocatedAgents :: int
  UnmetAgents :: int
  ImpactedClients :: "ImpactedClient list"

record Schedule =
  HourlyRequirements :: "CustomerRequirement list list"
  UnmetDemands :: "UnmetDemand list"

section \<open>sort.Slice\<close>

text \<open>
  \<^verbatim>\<open>sort.Slice\<close> runs an insertion sort on a slice of at most 12 elements: each element
  in turn is swapped with its left neighbour as long as it is less than that neighbour.
  On a longer slice it runs the library's pattern-defeating quicksort, which is taken
  here as the argument \<open>pdq\<close>; the library documents of it that the result is the input
  reordered and in order, and that the sort is not guaranteed to be stable.
\<close>

function moveLeft :: "('a \<Rightarrow> 'a \<Rightarrow> bool) \<Rightarrow> 'a list \<Rightarrow> 'a \<Rightarrow> 'a list" where
  "moveLeft lt ys x =
     (if ys \<noteq> [] \<and> lt x (last ys) then moveLeft lt (butlast ys) x @ [last ys]
      else ys @ [x])"
  by pat_completeness auto
termination
  by (relation "measure (\<lambda>(lt, ys, x). length ys)") auto

declare moveLeft.simps [simp del]

definition insertionSort_func :: "('a \<Rightarrow> 'a \<Rightarrow> bool) \<Rightarrow> 'a list \<Rightarrow> 'a list" where
  "insertionSort_func lt xs = foldl (moveLeft lt) [] xs"

definition maxInsertion :: nat where
  "maxInsertion = 12"

definition sort_Slice ::
  "('a list \<Rightarrow> 'a list) \<Rightarrow> ('a \<Rightarrow> 'a \<Rightarrow> bool) \<Rightarrow> 'a list \<Rightarrow> 'a list" where
  "sort_Slice pdq lt xs =
     (if length xs \<le> maxInsertion then insertionSort_func lt xs else pdq xs)"

text \<open>What the library documents of the sort: a reordering of the input, in order.\<close>

definition sorts_by :: "('a \<Rightarrow> 'a \<Rightarrow> bool) \<Rightarrow> ('a list \<Rightarrow> 'a list) \<Rightarrow> bool" where
  "sorts_by lt f =
     (\<forall>xs. mset (f xs) = mset xs \<and> sorted_wrt (\<lambda>a b. \<not> lt b a) (f xs))"

section \<open>The capacity allocator\<close>

definition byPriority :: "CustomerRequirement \<Rightarrow> CustomerRequirement \<Rightarrow> bool" where
  "byPriority a b = (Priority a < Priority b)"

text \<open>The single pass of \<^verbatim>\<open>allocateWithConstraints\<close> over the sorted requests.\<close>

fun allocLoop ::
  "CustomerRequirement list \<Rightarrow> int \<Rightarrow> CustomerRequirement list \<Rightarrow> ImpactedClient list
   \<Rightarrow> CustomerRequirement list \<times> ImpactedClient list" where
  "allocLoop [] remaining allocated impactedClients = (allocated, impactedClients)"
| "allocLoop (req # rest) remaining allocated impactedClients =
     (if remaining \<le> 0 then
        allocLoop rest remaining allocated
          (impactedClients @
             [\<lparr>ic_Name = Name req, RequestedAgents = AgentsNeeded req,
               ic_AllocatedAgents = 0, ic_UnmetAgents = AgentsNeeded req,
               ic_Priority = Priority req\<rparr>])
      else if remaining \<ge> AgentsNeeded req then
        allocLoop rest (remaining - AgentsNeeded req) (allocated @ [req]) impactedClients
      else
        allocLoop rest 0
          (allocated @
             [\<lparr>Name = Name req, AgentsNeeded = remaining,
               Location = Location req, Priority = Priority req\<rparr>])
          (impactedClients @
             [\<lparr>ic_Name = Name req, RequestedAgents = AgentsNeeded req,
               ic_AllocatedAgents = remaining,
               ic_UnmetAgents = AgentsNeeded req - remaining,
               ic_Priority = Priority req\<rparr>]))"

definition allocateWithConstraints ::
  "(CustomerRequirement list \<Rightarrow> CustomerRequirement list) \<Rightarrow> CustomerRequirement list
   \<Rightarrow> int \<Rightarrow> CustomerRequirement list \<times> UnmetDemand option" where
  "allocateWithConstraints pdq requests capacity =
     (if length requests = 0 then ([], None)
      else
        let totalDemand = foldl (\<lambda>total req. total + AgentsNeeded req) 0 requests
        in if capacity \<ge> totalDemand then (requests, None)
           else
             let sorted = sort_Slice pdq byPriority requests;
                 (allocated, impactedClients) = allocLoop sorted capacity [] []
             in if length impactedClients > 0 then
                  (allocated,
                   Some \<lparr>Hour_of = 0, TotalDemand = totalDemand,
                         AllocatedAgents = capacity,
                         UnmetAgents = totalDemand - capacity,
                         ImpactedClients = impactedClients\<rparr>)
                else (allocated, None))"

section \<open>GenerateSchedule\<close>

text \<open>
  The body of the loop over the hour boundaries of one record, at the boundary \<open>t\<close>:
  the buckets \<open>hourlyRequests\<close> are returned with the entry of this step appended to the
  bucket of its local hour, or unchanged when the step does not overlap the window.
\<close>

definition hourStep ::
  "CallData \<Rightarrow> real \<Rightarrow> Time \<Rightarrow> Time \<Rightarrow> real \<Rightarrow> Time \<Rightarrow> CustomerRequirement list list
   \<Rightarrow> CustomerRequirement list list" where
  "hourStep cd utilization start end callsPerHour t hourlyRequests =
     (let hourStart = t;
          hourEnd = Add t Hour;
          actualStart = (if After start hourStart then start else hourStart);
          actualEnd = (if Before end hourEnd then end else hourEnd);
          hoursUsedInThisSlot = Hours (Sub actualEnd actualStart)
      in if hoursUsedInThisSlot \<le> 0 then hourlyRequests
         else
           let callsThisHour = callsPerHour * hoursUsedInThisSlot;
               agentsNeeded =
                 \<lceil>callsThisHour * real_of_int (AverageCallDurationSeconds cd) / 3600\<rceil>;
               utilizationMultiplier = 1 / utilization;
               agentsNeeded' = \<lceil>real_of_int agentsNeeded * utilizationMultiplier\<rceil>;
               localTime = (case cd_Location cd of None \<Rightarrow> t | Some l \<Rightarrow> In t l);
               h = Time_Hour localTime
           in hourlyRequests
                [h := hourlyRequests ! h @
                   [\<lparr>Name = CustomerName cd, AgentsNeeded = agentsNeeded',
                     Location = cd_Location cd, Priority = cd_Priority cd\<rparr>]])"

text \<open>The loop \<^verbatim>\<open>for t := startHourBoundary; t.Before(endHourBoundary); t = t.Add(time.Hour)\<close>.\<close>

function hourLoop ::
  "CallData \<Rightarrow> real \<Rightarrow> Time \<Rightarrow> Time \<Rightarrow> real \<Rightarrow> Time \<Rightarrow> Time \<Rightarrow> CustomerRequirement list list
   \<Rightarrow> CustomerRequirement list list" where
  "hourLoop cd utilization start end callsPerHour endHourBoundary t hourlyRequests =
     (if Before t endHourBoundary then
        hourLoop cd utilization start end callsPerHour endHourBoundary (Add t Hour)
          (hourStep cd utilization start end callsPerHour t hourlyRequests)
      else hourlyRequests)"
  by pat_completeness auto
termination
  by (relation "measure (\<lambda>(cd, u, s, e, c, endHourBoundary, t, hr).
        nat (unixNano endHourBoundary - unixNano t))")
     (auto simp: Before_def Add_def Hour_def)

declare hourLoop.simps [simp del]

text \<open>
  The values \<^verbatim>\<open>end\<close>, \<^verbatim>\<open>startHourBoundary\<close> and \<^verbatim>\<open>endHourBoundary\<close> that the body of the
  loop over the records computes for a record: the end after the overnight rule, the
  start rounded down to its hour, and the end rounded up to the next hour when it is
  not on one.
\<close>

definition overnightEnd :: "CallData \<Rightarrow> Time" where
  "overnightEnd cd =
     (if Before (EndTime cd) (StartTime cd) then Add (EndTime cd) (24 * Hour)
      else EndTime cd)"

definition startHourBoundary :: "CallData \<Rightarrow> Time" where
  "startHourBoundary cd = hourBoundary (StartTime cd)"

definition endHourBoundary :: "CallData \<Rightarrow> Time" where
  "endHourBoundary cd =
     (let end = overnightEnd cd;
          endHourBoundary = hourBoundary end
      in if After end endHourBoundary then Add endHourBoundary Hour else endHourBoundary)"

text \<open>The body of the loop over the records.\<close>

definition recordStep ::
  "real \<Rightarrow> CustomerRequirement list list \<Rightarrow> CallData \<Rightarrow> CustomerRequirement list list" where
  "recordStep utilization hourlyRequests cd =
     (let start = StartTime cd;
          end = overnightEnd cd;
          durationHours = Hours (Sub end start)
      in if durationHours \<le> 0 then hourlyRequests
         else
           let callsPerHour = real_of_int (NumberOfCalls cd) / durationHours
           in hourLoop cd utilization start end callsPerHour (endHourBoundary cd)
                (startHourBoundary cd) hourlyRequests)"

text \<open>
  The loop over the hours that applies the capacity. The schedule's buckets are the
  slice \<^verbatim>\<open>hourlyRequests\<close> itself, so each hour is read from the schedule built so far.
\<close>

fun constrainLoop ::
  "(CustomerRequirement list \<Rightarrow> CustomerRequirement list) \<Rightarrow> int \<Rightarrow> nat list \<Rightarrow> Schedule
   \<Rightarrow> Schedule" where
  "constrainLoop pdq capacityPerHour [] schedule = schedule"
| "constrainLoop pdq capacityPerHour (h # hs) schedule =
     (let (allocated, unmet) =
            allocateWithConstraints pdq (HourlyRequirements schedule ! h) capacityPerHour;
          schedule' = schedule\<lparr>HourlyRequirements := (HourlyRequirements schedule)[h := allocated]\<rparr>
      in constrainLoop pdq capacityPerHour hs
           (case unmet of
              None \<Rightarrow> schedule'
            | Some u \<Rightarrow>
                schedule'\<lparr>UnmetDemands := UnmetDemands schedule' @ [u\<lparr>Hour_of := int h\<rparr>]\<rparr>))"

definition GenerateSchedule ::
  "(CustomerRequirement list \<Rightarrow> CustomerRequirement list) \<Rightarrow> CallData list \<Rightarrow> real \<Rightarrow> int
   \<Rightarrow> Schedule" where
  "GenerateSchedule pdq data utilization capacityPerHour =
     (let hourlyRequests = foldl (recordStep utilization) (replicate 24 []) data;
          schedule = \<lparr>HourlyRequirements = hourlyRequests, UnmetDemands = []\<rparr>
      in if capacityPerHour > 0 then constrainLoop pdq capacityPerHour [0..<24] schedule
         else schedule)"

section \<open>Concrete inputs\<close>

definition threeRequests :: "CustomerRequirement list" where
  "threeRequests =
     [\<lparr>Name = ''C'', AgentsNeeded = 4, Location = None, Priority = 3\<rparr>,
      \<lparr>Name = ''A'', AgentsNeeded = 10, Location = None, Priority = 1\<rparr>,
      \<lparr>Name = ''B'', AgentsNeeded = 10, Location = None, Priority = 2\<rparr>]"

definition t10 :: Time where "t10 = \<lparr>unixNano = 1704103200000000000, loc = UTC\<rparr>"
definition t11 :: Time where "t11 = \<lparr>unixNano = 1704106800000000000, loc = UTC\<rparr>"

definition highPriority :: CallData where
  "highPriority = \<lparr>CustomerName = ''HighPriority'', AverageCallDurationSeconds = 3600,
     StartTime = t10, EndTime = t11, cd_Location = Some UTC, NumberOfCalls = 10,
     cd_Priority = 1\<rparr>"

definition lowPriority :: CallData where
  "lowPriority = \<lparr>CustomerName = ''LowPriority'', AverageCallDurationSeconds = 3600,
     StartTime = t10, EndTime = t11, cd_Location = Some UTC, NumberOfCalls = 10,
     cd_Priority = 2\<rparr>"

text \<open>
  A sort that meets what the library documents of \<^verbatim>\<open>sort.Slice\<close> and is not stable. On a
  slice of 13 elements it first makes the three exchanges that the partitioning round of
  the library's quicksort makes on a slice whose first twelve elements are equal and
  whose last element is less than them: the pivot, found at index 6, goes to the front;
  the elements at indices 1 and 12 change places; the pivot goes to index 1. The result
  is then sorted by insertion, as both sides of the pivot are.
\<close>

definition exchange :: "nat \<Rightarrow> nat \<Rightarrow> 'a list \<Rightarrow> 'a list" where
  "exchange i j xs = xs[i := xs ! j, j := xs ! i]"

definition exchangingSort :: "CustomerRequirement list \<Rightarrow> CustomerRequirement list" where
  "exchangingSort xs =
     insertionSort_func byPriority
       (if length xs = 13 then exchange 0 1 (exchange 1 12 (exchange 0 6 xs)) else xs)"

text \<open>Twelve requests of priority 2 followed by one of priority 1.\<close>

definition thirteenRequests :: "CustomerRequirement list" where
  "thirteenRequests =
     [\<lparr>Name = ''e0'', AgentsNeeded = 1, Location = None, Priority = 2\<rparr>,
      \<lparr>Name = ''e1'', AgentsNeeded = 1, Location = None, Priority = 2\<rparr>,
      \<lparr>Name = ''e2'', AgentsNeeded = 1, Location = None, Priority = 2\<rparr>,
      \<lparr>Name = ''e3'', AgentsNeeded = 1, Location = None, Priority = 2\<rparr>,
      \<lparr>Name = ''e4'', AgentsNeeded = 1, Location = None, Priority = 2\<rparr>,
      \<lparr>Name = ''e5'', AgentsNeeded = 1, Location = None, Priority = 2\<rparr>,
      \<lparr>Name = ''e6'', AgentsNeeded = 1, Location = None, Priority = 2\<rparr>,
      \<lparr>Name = ''e7'', AgentsNeeded = 1, Location = None, Priority = 2\<rparr>,
      \<lparr>Name = ''e8'', AgentsNeeded = 1, Location = None, Priority = 2\<rparr>,
      \<lparr>Name = ''e9'', AgentsNeeded = 1, Location = None, Priority = 2\<rparr>,
      \<lparr>Name = ''e10'', AgentsNeeded = 1, Location = None, Priority = 2\<rparr>,
      \<lparr>Name = ''e11'', AgentsNeeded = 1, Location = None, Priority = 2\<rparr>,
      \<lparr>Name = ''e12'', AgentsNeeded = 1, Location = None, Priority = 1\<rparr>]"

definition tiedRequests :: "CustomerRequirement list" where
  "tiedRequests =
     [\<lparr>Name = ''X'', AgentsNeeded = 10, Location = None, Priority = 2\<rparr>,
      \<lparr>Name = ''Y'', AgentsNeeded = 10, Location = None, Priority = 1\<rparr>,
      \<lparr>Name = ''Z'', AgentsNeeded = 10, Location = None, Priority = 2\<rparr>,
      \<lparr>Name = ''W'', AgentsNeeded = 10, Location = None, Priority = 1\<rparr>]"

section \<open>Properties of the sort\<close>

lemma mset_moveLeft: "mset (moveLeft lt ys x) = add_mset x (mset ys)"
proof (induction lt ys x rule: moveLeft.induct)
  case (1 lt ys x)
  show ?case
  proof (cases "ys \<noteq> [] \<and> lt x (last ys)")
    case True
    then have "mset (moveLeft lt ys x) = add_mset (last ys) (add_mset x (mset (butlast ys)))"
      using 1 by (simp add: moveLeft.simps [of lt ys x])
    also have "\<dots> = add_mset x (mset (butlast ys @ [last ys]))" by simp
    finally show ?thesis using True by simp
  next
    case False
    then show ?thesis by (auto simp add: moveLeft.simps [of lt ys x])
  qed
qed

lemma mset_foldl_moveLeft: "mset (foldl (moveLeft lt) acc xs) = mset acc + mset xs"
  by (induction xs arbitrary: acc) (simp_all add: mset_moveLeft)

lemma mset_insertionSort_func: "mset (insertionSort_func lt xs) = mset xs"
  by (simp add: insertionSort_func_def mset_foldl_moveLeft)

lemma sorted_moveLeft:
  "sorted_wrt (\<lambda>a b. Priority a \<le> Priority b) ys \<Longrightarrow>
   sorted_wrt (\<lambda>a b. Priority a \<le> Priority b) (moveLeft byPriority ys x)"
proof (induction byPriority ys x rule: moveLeft.induct)
  case (1 ys x)
  show ?case
  proof (cases "ys \<noteq> [] \<and> byPriority x (last ys)")
    case True
    then have ys: "ys = butlast ys @ [last ys]" by simp
    from "1.prems" have sb: "sorted_wrt (\<lambda>a b. Priority a \<le> Priority b) (butlast ys)"
      by (metis ys sorted_wrt_append)
    have le: "\<forall>a \<in> set (butlast ys). Priority a \<le> Priority (last ys)"
      using "1.prems" by (metis ys sorted_wrt_append list.set_intros(1))
    have "set (moveLeft byPriority (butlast ys) x) = insert x (set (butlast ys))"
      by (metis mset_moveLeft set_mset_add_mset_insert set_mset_mset)
    then have "\<forall>a \<in> set (moveLeft byPriority (butlast ys) x). Priority a \<le> Priority (last ys)"
      using le True by (auto simp: byPriority_def)
    then show ?thesis
      using True "1.hyps" [OF True sb]
      by (simp add: moveLeft.simps [of byPriority ys x] sorted_wrt_append)
  next
    case False
    have "\<forall>a \<in> set ys. Priority a \<le> Priority x"
    proof
      fix a assume a: "a \<in> set ys"
      then have ne: "ys \<noteq> []" by auto
      then have ys: "ys = butlast ys @ [last ys]" by simp
      have "Priority a \<le> Priority (last ys)"
      proof (cases "a \<in> set (butlast ys)")
        case True
        then show ?thesis using "1.prems"
          by (metis ys sorted_wrt_append list.set_intros(1))
      next
        case False
        then have "a = last ys" using a ys
          by (metis Un_iff empty_iff empty_set set_ConsD set_append)
        then show ?thesis by simp
      qed
      moreover have "Priority (last ys) \<le> Priority x"
        using False ne by (simp add: byPriority_def)
      ultimately show "Priority a \<le> Priority x" by simp
    qed
    moreover have "moveLeft byPriority ys x = ys @ [x]"
      using False by (subst moveLeft.simps) auto
    ultimately show ?thesis using "1.prems"
      by (simp add: sorted_wrt_append)
  qed
qed

lemma sorted_foldl_moveLeft:
  "sorted_wrt (\<lambda>a b. Priority a \<le> Priority b) acc \<Longrightarrow>
   sorted_wrt (\<lambda>a b. Priority a \<le> Priority b) (foldl (moveLeft byPriority) acc xs)"
  by (induction xs arbitrary: acc) (simp_all add: sorted_moveLeft)

lemma sorted_insertionSort_func:
  "sorted_wrt (\<lambda>a b. Priority a \<le> Priority b) (insertionSort_func byPriority xs)"
  by (simp add: insertionSort_func_def sorted_foldl_moveLeft)

lemma stable_moveLeft:
  "filter (\<lambda>r. Priority r = p) (moveLeft byPriority ys x) =
   filter (\<lambda>r. Priority r = p) (ys @ [x])"
proof (induction byPriority ys x rule: moveLeft.induct)
  case (1 ys x)
  show ?case
  proof (cases "ys \<noteq> [] \<and> byPriority x (last ys)")
    case True
    then have ys: "ys = butlast ys @ [last ys]" by simp
    have ne: "Priority x \<noteq> Priority (last ys)" using True by (simp add: byPriority_def)
    have "filter (\<lambda>r. Priority r = p) (moveLeft byPriority ys x) =
          filter (\<lambda>r. Priority r = p) (butlast ys @ [x]) @ filter (\<lambda>r. Priority r = p) [last ys]"
      using True "1.hyps" [OF True] by (simp add: moveLeft.simps [of byPriority ys x])
    also have "\<dots> = filter (\<lambda>r. Priority r = p) (butlast ys @ [last ys]) @ filter (\<lambda>r. Priority r = p) [x]"
      using ne by auto
    finally show ?thesis using ys by (metis filter_append)
  next
    case False
    then show ?thesis by (auto simp add: moveLeft.simps [of byPriority ys x])
  qed
qed

lemma stable_foldl_moveLeft:
  "filter (\<lambda>r. Priority r = p) (foldl (moveLeft byPriority) acc xs) =
   filter (\<lambda>r. Priority r = p) (acc @ xs)"
proof (induction xs arbitrary: acc)
  case Nil
  then show ?case by simp
next
  case (Cons x xs)
  have "filter (\<lambda>r. Priority r = p) (foldl (moveLeft byPriority) acc (x # xs)) =
        filter (\<lambda>r. Priority r = p) (moveLeft byPriority acc x @ xs)"
    using Cons.IH [of "moveLeft byPriority acc x"] by simp
  then show ?case by (simp add: stable_moveLeft)
qed

lemma sort_Slice_mset:
  "sorts_by byPriority pdq \<Longrightarrow> mset (sort_Slice pdq byPriority xs) = mset xs"
  by (simp add: sort_Slice_def sorts_by_def mset_insertionSort_func)

lemma sort_Slice_sorted:
  "sorts_by byPriority pdq \<Longrightarrow>
   sorted_wrt (\<lambda>a b. Priority a \<le> Priority b) (sort_Slice pdq byPriority xs)"
  by (auto simp add: sort_Slice_def sorts_by_def sorted_insertionSort_func byPriority_def not_less)

lemma sorts_by_insertionSort_func: "sorts_by byPriority (insertionSort_func byPriority)"
  using sorted_insertionSort_func
  by (auto simp add: sorts_by_def mset_insertionSort_func byPriority_def not_less)

lemma totalDemand_foldl:
  "foldl (\<lambda>total req. total + AgentsNeeded req) a xs = a + sum_list (map AgentsNeeded xs)"
  by (induction xs arbitrary: a) simp_all


section \<open>Properties of the allocator\<close>

text \<open>The accumulators of the pass are only ever appended to.\<close>

lemma allocLoop_acc:
  "allocLoop reqs remaining allocated impacted =
     (allocated @ fst (allocLoop reqs remaining [] []),
      impacted @ snd (allocLoop reqs remaining [] []))"
proof (induction reqs arbitrary: remaining allocated impacted)
  case Nil
  then show ?case by simp
next
  case (Cons req rest)
  have step: "\<And>r x y. allocLoop rest r (allocated @ x) (impacted @ y) =
      (allocated @ fst (allocLoop rest r x y), impacted @ snd (allocLoop rest r x y))"
  proof -
    fix r x y
    have "allocLoop rest r (allocated @ x) (impacted @ y) =
        ((allocated @ x) @ fst (allocLoop rest r [] []),
         (impacted @ y) @ snd (allocLoop rest r [] []))"
      by (rule Cons.IH)
    moreover have "allocLoop rest r x y =
        (x @ fst (allocLoop rest r [] []), y @ snd (allocLoop rest r [] []))"
      by (rule Cons.IH)
    ultimately show "allocLoop rest r (allocated @ x) (impacted @ y) =
      (allocated @ fst (allocLoop rest r x y), impacted @ snd (allocLoop rest r x y))"
      by simp
  qed
  show ?case
    using step [of remaining "[]"] step [of _ _ "[]"] step
    by simp
qed

lemma allocLoop_Cons:
  "allocLoop (req # rest) remaining [] [] =
     (if remaining \<le> 0 then
        (fst (allocLoop rest remaining [] []),
         \<lparr>ic_Name = Name req, RequestedAgents = AgentsNeeded req,
           ic_AllocatedAgents = 0, ic_UnmetAgents = AgentsNeeded req,
           ic_Priority = Priority req\<rparr> # snd (allocLoop rest remaining [] []))
      else if remaining \<ge> AgentsNeeded req then
        (req # fst (allocLoop rest (remaining - AgentsNeeded req) [] []),
         snd (allocLoop rest (remaining - AgentsNeeded req) [] []))
      else
        (\<lparr>Name = Name req, AgentsNeeded = remaining,
           Location = Location req, Priority = Priority req\<rparr> # fst (allocLoop rest 0 [] []),
         \<lparr>ic_Name = Name req, RequestedAgents = AgentsNeeded req,
           ic_AllocatedAgents = remaining,
           ic_UnmetAgents = AgentsNeeded req - remaining,
           ic_Priority = Priority req\<rparr> # snd (allocLoop rest 0 [] [])))"
  using allocLoop_acc [of rest remaining "[]" "[_]"]
        allocLoop_acc [of rest "remaining - AgentsNeeded req" "[req]" "[]"]
        allocLoop_acc [of rest 0 "[_]" "[_]"]
  by simp

text \<open>Once no capacity remains, nothing more is allocated and every request is recorded.\<close>

lemma allocLoop_exhausted:
  "remaining \<le> 0 \<Longrightarrow>
   allocLoop reqs remaining [] [] =
     ([], map (\<lambda>req. \<lparr>ic_Name = Name req, RequestedAgents = AgentsNeeded req,
                        ic_AllocatedAgents = 0, ic_UnmetAgents = AgentsNeeded req,
                        ic_Priority = Priority req\<rparr>) reqs)"
proof (induction reqs)
  case Nil
  then show ?case by simp
next
  case (Cons req rest)
  then show ?case by (simp only: allocLoop_Cons) simp
qed

lemma allocLoop_sum:
  "0 \<le> remaining \<Longrightarrow>
   (snd (allocLoop reqs remaining [] []) = [] \<longrightarrow>
      fst (allocLoop reqs remaining [] []) = reqs \<and>
      sum_list (map AgentsNeeded reqs) \<le> remaining) \<and>
   (snd (allocLoop reqs remaining [] []) \<noteq> [] \<longrightarrow>
      sum_list (map AgentsNeeded (fst (allocLoop reqs remaining [] []))) = remaining)"
proof (induction reqs arbitrary: remaining)
  case Nil
  then show ?case by simp
next
  case (Cons req rest)
  show ?case
  proof (cases "remaining \<le> 0")
    case True
    then have "remaining = 0" using Cons.prems by simp
    then show ?thesis
      using allocLoop_exhausted [of remaining "req # rest"]
      by (simp del: allocLoop.simps)
  next
    case pos: False
    show ?thesis
    proof (cases "remaining \<ge> AgentsNeeded req")
      case True
      then have "0 \<le> remaining - AgentsNeeded req" by simp
      from Cons.IH [OF this] pos True show ?thesis
        by (simp only: allocLoop_Cons) auto
    next
      case False
      with pos show ?thesis
        by (simp only: allocLoop_Cons) (simp add: allocLoop_exhausted)
    qed
  qed
qed

lemma allocLoop_impacted_unmet:
  "\<forall>ic \<in> set (snd (allocLoop reqs remaining [] [])).
     ic_UnmetAgents ic = RequestedAgents ic - ic_AllocatedAgents ic"
proof (induction reqs arbitrary: remaining)
  case Nil
  then show ?case by simp
next
  case (Cons req rest)
  show ?case
    using Cons.IH [of remaining] Cons.IH [of "remaining - AgentsNeeded req"] Cons.IH [of 0]
    by (simp only: allocLoop_Cons) (simp split: if_splits)
qed

lemma allocLoop_impacted_from:
  "ic \<in> set (snd (allocLoop reqs remaining [] [])) \<Longrightarrow>
   \<exists>q \<in> set reqs. ic_Priority ic = Priority q"
proof (induction reqs arbitrary: remaining)
  case Nil
  then show ?case by simp
next
  case (Cons req rest)
  from Cons.prems show ?case
    by (simp only: allocLoop_Cons) (auto split: if_splits dest: Cons.IH)
qed

lemma allocLoop_allocated_from:
  "a \<in> set (fst (allocLoop reqs remaining [] [])) \<Longrightarrow>
   \<exists>q \<in> set reqs. Priority a = Priority q"
proof (induction reqs arbitrary: remaining)
  case Nil
  then show ?case by simp
next
  case (Cons req rest)
  from Cons.prems show ?case
    by (simp only: allocLoop_Cons) (auto split: if_splits dest: Cons.IH)
qed

section \<open>Conservation\<close>




section \<open>Priority order, fast path and the assembled schedule\<close>

lemma allocLoop_priority:
  assumes "sorted_wrt (\<lambda>a b. Priority a \<le> Priority b) reqs"
    and "ic \<in> set (snd (allocLoop reqs remaining [] []))"
    and "ic_AllocatedAgents ic < RequestedAgents ic"
  shows "(\<forall>a \<in> set (fst (allocLoop reqs remaining [] [])). Priority a \<le> ic_Priority ic) \<and>
         (\<forall>q \<in> set reqs. ic_Priority ic < Priority q \<longrightarrow>
            \<lparr>ic_Name = Name q, RequestedAgents = AgentsNeeded q, ic_AllocatedAgents = 0,
              ic_UnmetAgents = AgentsNeeded q, ic_Priority = Priority q\<rparr>
              \<in> set (snd (allocLoop reqs remaining [] [])))"
  using assms
proof (induction reqs arbitrary: remaining)
  case Nil
  then show ?case by simp
next
  case (Cons req rest)
  have sorted_rest: "sorted_wrt (\<lambda>a b. Priority a \<le> Priority b) rest"
    and head: "\<forall>q \<in> set rest. Priority req \<le> Priority q"
    using Cons.prems(1) by simp_all
  show ?case
  proof (cases "remaining \<le> 0")
    case True
    then show ?thesis
      using allocLoop_exhausted [of remaining "req # rest"]
      by (auto simp del: allocLoop.simps)
  next
    case pos: False
    show ?thesis
    proof (cases "remaining \<ge> AgentsNeeded req")
      case True
      let ?r = "remaining - AgentsNeeded req"
      have res: "allocLoop (req # rest) remaining [] [] =
          (req # fst (allocLoop rest ?r [] []), snd (allocLoop rest ?r [] []))"
        using pos True by (simp only: allocLoop_Cons) simp
      have ic: "ic \<in> set (snd (allocLoop rest ?r [] []))"
        using Cons.prems(2) res by simp
      from allocLoop_impacted_from [OF ic] head
      have le: "Priority req \<le> ic_Priority ic" by auto
      from Cons.IH [OF sorted_rest ic Cons.prems(3)] le show ?thesis
        by (simp only: res) auto
    next
      case False
      let ?p = "\<lparr>ic_Name = Name req, RequestedAgents = AgentsNeeded req,
           ic_AllocatedAgents = remaining,
           ic_UnmetAgents = AgentsNeeded req - remaining,
           ic_Priority = Priority req\<rparr>"
      let ?full = "map (\<lambda>req. \<lparr>ic_Name = Name req, RequestedAgents = AgentsNeeded req,
                        ic_AllocatedAgents = 0, ic_UnmetAgents = AgentsNeeded req,
                        ic_Priority = Priority req\<rparr>) rest"
      have res: "allocLoop (req # rest) remaining [] [] =
          ([\<lparr>Name = Name req, AgentsNeeded = remaining,
             Location = Location req, Priority = Priority req\<rparr>], ?p # ?full)"
        using pos False by (simp only: allocLoop_Cons) (simp add: allocLoop_exhausted)
      have le: "Priority req \<le> ic_Priority ic"
        using Cons.prems(2) head by (simp only: res) auto
      show ?thesis
        using le by (simp only: res) auto
    qed
  qed
qed

lemma allocate_unmet_record:
  assumes "allocateWithConstraints pdq requests capacity = (allocated, Some u)"
  shows "capacity < sum_list (map AgentsNeeded requests) \<and> requests \<noteq> [] \<and>
         allocated = fst (allocLoop (sort_Slice pdq byPriority requests) capacity [] []) \<and>
         u = \<lparr>Hour_of = 0, TotalDemand = sum_list (map AgentsNeeded requests),
               AllocatedAgents = capacity,
               UnmetAgents = sum_list (map AgentsNeeded requests) - capacity,
               ImpactedClients =
                 snd (allocLoop (sort_Slice pdq byPriority requests) capacity [] [])\<rparr>"
  using assms
  by (auto simp add: allocateWithConstraints_def totalDemand_foldl Let_def
      split: if_splits prod.splits)

lemma allocate_no_unmet:
  assumes "sorts_by byPriority pdq"
    and "allocateWithConstraints pdq requests capacity = (allocated, None)"
  shows "mset allocated = mset requests"
proof (cases "requests = [] \<or> capacity \<ge> sum_list (map AgentsNeeded requests)")
  case True
  then show ?thesis
    using assms(2)
    by (auto simp add: allocateWithConstraints_def totalDemand_foldl Let_def
        split: if_splits)
next
  case False
  let ?sorted = "sort_Slice pdq byPriority requests"
  have ms: "mset ?sorted = mset requests"
    using assms(1) by (rule sort_Slice_mset)
  from False assms(2) have res: "snd (allocLoop ?sorted capacity [] []) = []"
    and al: "allocated = fst (allocLoop ?sorted capacity [] [])"
    by (auto simp add: allocateWithConstraints_def totalDemand_foldl Let_def
        split: if_splits prod.splits)
  have "0 \<le> capacity"
  proof (rule ccontr)
    assume "\<not> 0 \<le> capacity"
    then have "capacity \<le> 0" by simp
    from allocLoop_exhausted [OF this, of ?sorted] res have "?sorted = []" by simp
    with ms False show False by simp
  qed
  from allocLoop_sum [OF this, of ?sorted] res al have "allocated = ?sorted" by simp
  with ms show ?thesis by simp
qed

text \<open>
  Claim C2: in the result of \<open>allocateWithConstraints\<close>, an entry that received less
  than it requested is an impacted client whose allocated agents are below its requested
  agents (when no unmet-demand record is produced, the allocated list is the demand
  list reordered and every entry is served in full). For such an entry of priority
  \<open>p1\<close>, no entry of the allocated list has a priority above \<open>p1\<close>, and every
  request with a priority above \<open>p1\<close> is recorded as an impacted client with 0
  allocated agents.
\<close>

theorem priority_monotonicity:
  assumes "sorts_by byPriority pdq"
    and "allocateWithConstraints pdq requests capacity = (allocated, unmet)"
  shows "(unmet = None \<longrightarrow> mset allocated = mset requests) \<and>
         (\<forall>u ic. unmet = Some u \<and> ic \<in> set (ImpactedClients u) \<and>
                 ic_AllocatedAgents ic < RequestedAgents ic \<longrightarrow>
            (\<forall>a \<in> set allocated. Priority a \<le> ic_Priority ic) \<and>
            (\<forall>q \<in> set requests. ic_Priority ic < Priority q \<longrightarrow>
               \<lparr>ic_Name = Name q, RequestedAgents = AgentsNeeded q, ic_AllocatedAgents = 0,
                 ic_UnmetAgents = AgentsNeeded q, ic_Priority = Priority q\<rparr>
                 \<in> set (ImpactedClients u)))"
proof (rule conjI)
  show "unmet = None \<longrightarrow> mset allocated = mset requests"
    using assms by (auto simp add: allocate_no_unmet)
next
  show "\<forall>u ic. unmet = Some u \<and> ic \<in> set (ImpactedClients u) \<and>
                 ic_AllocatedAgents ic < RequestedAgents ic \<longrightarrow>
            (\<forall>a \<in> set allocated. Priority a \<le> ic_Priority ic) \<and>
            (\<forall>q \<in> set requests. ic_Priority ic < Priority q \<longrightarrow>
               \<lparr>ic_Name = Name q, RequestedAgents = AgentsNeeded q, ic_AllocatedAgents = 0,
                 ic_UnmetAgents = AgentsNeeded q, ic_Priority = Priority q\<rparr>
                 \<in> set (ImpactedClients u))"
  proof (intro allI impI)
  fix u ic
  assume h: "unmet = Some u \<and> ic \<in> set (ImpactedClients u) \<and>
             ic_AllocatedAgents ic < RequestedAgents ic"
  let ?sorted = "sort_Slice pdq byPriority requests"
  from h assms(2) have eq: "allocateWithConstraints pdq requests capacity = (allocated, Some u)"
    by simp
  note rec = allocate_unmet_record [OF eq]
  have ic: "ic \<in> set (snd (allocLoop ?sorted capacity [] []))"
    using h rec by simp
  have set_eq: "set ?sorted = set requests"
    using sort_Slice_mset [OF assms(1), of requests] by (metis set_mset_mset)
  from allocLoop_priority [OF sort_Slice_sorted [OF assms(1)] ic] h rec set_eq
  show "(\<forall>a \<in> set allocated. Priority a \<le> ic_Priority ic) \<and>
        (\<forall>q \<in> set requests. ic_Priority ic < Priority q \<longrightarrow>
           \<lparr>ic_Name = Name q, RequestedAgents = AgentsNeeded q, ic_AllocatedAgents = 0,
             ic_UnmetAgents = AgentsNeeded q, ic_Priority = Priority q\<rparr>
             \<in> set (ImpactedClients u))"
    by simp
  qed
qed

lemma threeRequests_allocated:
  "allocateWithConstraints (insertionSort_func byPriority) threeRequests 5 =
     ([\<lparr>Name = ''A'', AgentsNeeded = 5, Location = None, Priority = 1\<rparr>],
      Some \<lparr>Hour_of = 0, TotalDemand = 24, AllocatedAgents = 5, UnmetAgents = 19,
        ImpactedClients =
          [\<lparr>ic_Name = ''A'', RequestedAgents = 10, ic_AllocatedAgents = 5,
             ic_UnmetAgents = 5, ic_Priority = 1\<rparr>,
           \<lparr>ic_Name = ''B'', RequestedAgents = 10, ic_AllocatedAgents = 0,
             ic_UnmetAgents = 10, ic_Priority = 2\<rparr>,
           \<lparr>ic_Name = ''C'', RequestedAgents = 4, ic_AllocatedAgents = 0,
             ic_UnmetAgents = 4, ic_Priority = 3\<rparr>]\<rparr>)"
  by code_simp

text \<open>
  The theorem at three requests and capacity 5: the priority-1 entry gets 5 of 10, the
  entries of priority 2 and 3 get nothing.
\<close>

theorem priority_monotonicity_witness:
  "sorts_by byPriority (insertionSort_func byPriority) \<and>
   map Priority (fst (allocateWithConstraints (insertionSort_func byPriority) threeRequests 5)) =
     [1] \<and>
   map (\<lambda>ic. (ic_Priority ic, RequestedAgents ic, ic_AllocatedAgents ic))
     (ImpactedClients (the (snd
        (allocateWithConstraints (insertionSort_func byPriority) threeRequests 5)))) =
     [(1, 10, 5), (2, 10, 0), (3, 4, 0)]"
  using priority_monotonicity [OF sorts_by_insertionSort_func threeRequests_allocated]
    sorts_by_insertionSort_func
  by (simp add: threeRequests_allocated)

text \<open>
  Claim C3: for a non-empty demand list whose total is at most the capacity,
  \<open>allocateWithConstraints\<close> returns the input list itself and no unmet-demand record;
  with \<open>capacityPerHour = 0\<close> the allocator is not invoked and the schedule holds the
  aggregated buckets and no unmet-demand record.
\<close>

theorem fast_path:
  "(requests \<noteq> [] \<and> sum_list (map AgentsNeeded requests) \<le> capacity \<longrightarrow>
      allocateWithConstraints pdq requests capacity = (requests, None)) \<and>
   GenerateSchedule pdq data utilization 0 =
     \<lparr>HourlyRequirements = foldl (recordStep utilization) (replicate 24 []) data,
      UnmetDemands = []\<rparr>"
  by (simp add: allocateWithConstraints_def totalDemand_foldl GenerateSchedule_def)

text \<open>
  The theorem at three requests of 24 agents in total and capacity 24.
\<close>

theorem fast_path_witness:
  "threeRequests \<noteq> [] \<and> sum_list (map AgentsNeeded threeRequests) \<le> 24 \<and>
   allocateWithConstraints (insertionSort_func byPriority) threeRequests 24 = (threeRequests, None)"
  using fast_path [of threeRequests 24 "insertionSort_func byPriority"]
  by (simp add: threeRequests_def)

text \<open>
  Claim C10: with a negative \<open>capacityPerHour\<close>, \<open>GenerateSchedule\<close> returns the same
  schedule as with \<open>capacityPerHour = 0\<close>: the buckets are the aggregated ones (the
  allocator is not invoked) and there is no unmet-demand record.
\<close>

theorem negative_capacity:
  "capacityPerHour < 0 \<Longrightarrow>
   GenerateSchedule pdq data utilization capacityPerHour =
     GenerateSchedule pdq data utilization 0 \<and>
   HourlyRequirements (GenerateSchedule pdq data utilization capacityPerHour) =
     foldl (recordStep utilization) (replicate 24 []) data \<and>
   UnmetDemands (GenerateSchedule pdq data utilization capacityPerHour) = []"
  by (simp add: GenerateSchedule_def)

text \<open>
  The theorem at two records and capacity \<open>-3\<close>.
\<close>

theorem negative_capacity_witness:
  "(- 3 :: int) < 0 \<and>
   GenerateSchedule (insertionSort_func byPriority) [highPriority, lowPriority] 1 (- 3) =
     GenerateSchedule (insertionSort_func byPriority) [highPriority, lowPriority] 1 0 \<and>
   UnmetDemands (GenerateSchedule (insertionSort_func byPriority) [highPriority, lowPriority] 1 (- 3)) = []"
  using negative_capacity [of "- 3" "insertionSort_func byPriority" "[highPriority, lowPriority]" 1]
  by auto

text \<open>
  Claim C9: two records in the same hour (10:00 to 11:00 UTC), each of 10 calls of 3600
  seconds, priorities 1 and 2, utilization 1 and capacity 15. The priority-1 customer is
  allocated 10 agents and the priority-2 customer 5; the one unmet-demand record is for
  hour 10, with total demand 20, allocated 15, unmet 5 and the single impacted client of
  priority 2 with requested 10, allocated 5, unmet 5.
\<close>

theorem scenario_two_records:
  "GenerateSchedule pdq [highPriority, lowPriority] 1 15 =
  \<lparr>HourlyRequirements =
    [[], [], [], [], [], [], [], [], [], [],
     [\<lparr>Name = ''HighPriority'', AgentsNeeded = 10, Location = Some UTC, Priority = 1\<rparr>,
      \<lparr>Name = ''LowPriority'', AgentsNeeded = 5, Location = Some UTC, Priority = 2\<rparr>],
     [], [], [], [], [], [], [], [], [], [], [], [], []],
    UnmetDemands =
      [\<lparr>Hour_of = 10, TotalDemand = 20, AllocatedAgents = 15, UnmetAgents = 5,
        ImpactedClients =
          [\<lparr>ic_Name = ''LowPriority'', RequestedAgents = 10, ic_AllocatedAgents = 5,
            ic_UnmetAgents = 5, ic_Priority = 2\<rparr>]\<rparr>]\<rparr>"
  by code_simp

lemma length_hourStep:
  "length (hourStep cd utilization start end callsPerHour t hourlyRequests) =
   length hourlyRequests"
  by (simp add: hourStep_def Let_def)

lemma length_hourLoop:
  "length (hourLoop cd utilization start end callsPerHour stop t hourlyRequests) =
   length hourlyRequests"
proof (induction cd utilization start "end" callsPerHour stop t hourlyRequests
    rule: hourLoop.induct)
  case (1 cd utilization start "end" callsPerHour stop t hourlyRequests)
  show ?case
  proof (cases "Before t stop")
    case True
    then show ?thesis
      using "1.IH" by (subst hourLoop.simps) (simp add: length_hourStep)
  next
    case False
    then show ?thesis by (subst hourLoop.simps) simp
  qed
qed

lemma length_recordStep:
  "length (recordStep utilization hourlyRequests cd) = length hourlyRequests"
  by (simp add: recordStep_def Let_def length_hourLoop)

lemma length_foldl_recordStep:
  "length (foldl (recordStep utilization) hourlyRequests data) = length hourlyRequests"
  by (induction data arbitrary: hourlyRequests) (simp_all add: length_recordStep)

lemma allocate_unmet_exact:
  assumes "allocateWithConstraints pdq requests capacity = (allocated, Some u)"
  shows "UnmetAgents u = TotalDemand u - AllocatedAgents u \<and>
         (\<forall>ic \<in> set (ImpactedClients u).
            ic_UnmetAgents ic = RequestedAgents ic - ic_AllocatedAgents ic)"
  using allocate_unmet_record [OF assms] allocLoop_impacted_unmet by simp

lemma constrainLoop_invariants:
  assumes "\<forall>u \<in> set (UnmetDemands schedule).
             UnmetAgents u = TotalDemand u - AllocatedAgents u \<and>
             (\<forall>ic \<in> set (ImpactedClients u).
                ic_UnmetAgents ic = RequestedAgents ic - ic_AllocatedAgents ic)"
  shows "length (HourlyRequirements (constrainLoop pdq capacityPerHour hs schedule)) =
           length (HourlyRequirements schedule) \<and>
         (\<forall>u \<in> set (UnmetDemands (constrainLoop pdq capacityPerHour hs schedule)).
            UnmetAgents u = TotalDemand u - AllocatedAgents u \<and>
            (\<forall>ic \<in> set (ImpactedClients u).
               ic_UnmetAgents ic = RequestedAgents ic - ic_AllocatedAgents ic))"
  using assms
proof (induction hs arbitrary: schedule)
  case Nil
  then show ?case by simp
next
  case (Cons h hs)
  obtain allocated unmet where
    res: "allocateWithConstraints pdq (HourlyRequirements schedule ! h) capacityPerHour =
            (allocated, unmet)"
    by (cases "allocateWithConstraints pdq (HourlyRequirements schedule ! h) capacityPerHour")
  let ?s' = "schedule\<lparr>HourlyRequirements := (HourlyRequirements schedule)[h := allocated]\<rparr>"
  show ?case
  proof (cases unmet)
    case None
    have step: "constrainLoop pdq capacityPerHour (h # hs) schedule =
                constrainLoop pdq capacityPerHour hs ?s'"
      using res None by simp
    have "\<forall>u \<in> set (UnmetDemands ?s').
             UnmetAgents u = TotalDemand u - AllocatedAgents u \<and>
             (\<forall>ic \<in> set (ImpactedClients u).
                ic_UnmetAgents ic = RequestedAgents ic - ic_AllocatedAgents ic)"
      using Cons.prems by simp
    from Cons.IH [OF this] show ?thesis by (simp only: step) simp
  next
    case (Some u)
    let ?s'' = "?s'\<lparr>UnmetDemands := UnmetDemands ?s' @ [u\<lparr>Hour_of := int h\<rparr>]\<rparr>"
    have step: "constrainLoop pdq capacityPerHour (h # hs) schedule =
                constrainLoop pdq capacityPerHour hs ?s''"
      using res Some by simp
    have "\<forall>u \<in> set (UnmetDemands ?s'').
             UnmetAgents u = TotalDemand u - AllocatedAgents u \<and>
             (\<forall>ic \<in> set (ImpactedClients u).
                ic_UnmetAgents ic = RequestedAgents ic - ic_AllocatedAgents ic)"
      using Cons.prems allocate_unmet_exact [OF res [unfolded Some]] by auto
    from Cons.IH [OF this] show ?thesis by (simp only: step) simp
  qed
qed

text \<open>
  Claim C4: every schedule returned by \<open>GenerateSchedule\<close> has the 24 hour buckets, every
  unmet-demand record has \<open>UnmetAgents = TotalDemand - AllocatedAgents\<close>, and every
  impacted client has \<open>ic_UnmetAgents = RequestedAgents - ic_AllocatedAgents\<close>.
\<close>

theorem schedule_invariants:
  "length (HourlyRequirements (GenerateSchedule pdq data utilization capacityPerHour)) = 24 \<and>
   (\<forall>u \<in> set (UnmetDemands (GenerateSchedule pdq data utilization capacityPerHour)).
      UnmetAgents u = TotalDemand u - AllocatedAgents u \<and>
      (\<forall>ic \<in> set (ImpactedClients u).
         ic_UnmetAgents ic = RequestedAgents ic - ic_AllocatedAgents ic))"
proof (cases "capacityPerHour > 0")
  case True
  let ?s = "\<lparr>HourlyRequirements = foldl (recordStep utilization) (replicate 24 []) data,
             UnmetDemands = []\<rparr>"
  have gs: "GenerateSchedule pdq data utilization capacityPerHour =
            constrainLoop pdq capacityPerHour [0..<24] ?s"
    using True by (simp add: GenerateSchedule_def Let_def)
  have "\<forall>u \<in> set (UnmetDemands ?s).
          UnmetAgents u = TotalDemand u - AllocatedAgents u \<and>
          (\<forall>ic \<in> set (ImpactedClients u).
             ic_UnmetAgents ic = RequestedAgents ic - ic_AllocatedAgents ic)"
    by simp
  from constrainLoop_invariants [OF this, of pdq capacityPerHour "[0..<24]"]
  show ?thesis by (simp only: gs) (simp add: length_foldl_recordStep)
next
  case False
  then show ?thesis
    by (simp add: GenerateSchedule_def Let_def length_foldl_recordStep)
qed

text \<open>
  The theorem at the two records above, where an unmet-demand record is produced.
\<close>

theorem schedule_invariants_witness:
  "length (HourlyRequirements (GenerateSchedule (insertionSort_func byPriority) [highPriority, lowPriority] 1 15)) = 24 \<and>
   map (\<lambda>u. (UnmetAgents u, TotalDemand u, AllocatedAgents u,
              map (\<lambda>ic. (ic_UnmetAgents ic, RequestedAgents ic, ic_AllocatedAgents ic))
                (ImpactedClients u)))
     (UnmetDemands (GenerateSchedule (insertionSort_func byPriority) [highPriority, lowPriority] 1 15)) =
     [(5, 20, 15, [(5, 10, 5)])]"
proof -
  have "map (\<lambda>u. (UnmetAgents u, TotalDemand u, AllocatedAgents u,
              map (\<lambda>ic. (ic_UnmetAgents ic, RequestedAgents ic, ic_AllocatedAgents ic))
                (ImpactedClients u)))
     (UnmetDemands (GenerateSchedule (insertionSort_func byPriority) [highPriority, lowPriority] 1 15)) =
     [(5, 20, 15, [(5, 10, 5)])]"
    by code_simp
  with schedule_invariants [of "insertionSort_func byPriority" "[highPriority, lowPriority]" 1 15] show ?thesis
    by simp
qed

section \<open>Order among equal priorities\<close>

lemma mset_exchange:
  "i < length xs \<Longrightarrow> j < length xs \<Longrightarrow> mset (exchange i j xs) = mset xs"
  by (simp add: exchange_def mset_swap)

lemma length_exchange: "length (exchange i j xs) = length xs"
  by (simp add: exchange_def)

lemma sorts_by_exchangingSort: "sorts_by byPriority exchangingSort"
proof -
  have "mset (exchangingSort xs) = mset xs" for xs
    by (simp add: exchangingSort_def mset_insertionSort_func mset_exchange length_exchange)
  moreover have "sorted_wrt (\<lambda>a b. \<not> byPriority b a) (exchangingSort xs)" for xs
    using sorted_insertionSort_func
    by (simp add: exchangingSort_def byPriority_def not_less)
  ultimately show ?thesis by (simp add: sorts_by_def)
qed

lemma allocLoop_order:
  "prefix (map (\<lambda>r. (Name r, Priority r)) (fst (allocLoop reqs remaining [] [])))
          (map (\<lambda>r. (Name r, Priority r)) reqs) \<and>
   suffix (map (\<lambda>ic. (ic_Name ic, ic_Priority ic)) (snd (allocLoop reqs remaining [] [])))
          (map (\<lambda>r. (Name r, Priority r)) reqs)"
proof (induction reqs arbitrary: remaining)
  case Nil
  then show ?case by simp
next
  case (Cons req rest)
  show ?case
  proof (cases "remaining \<le> 0")
    case True
    then show ?thesis
      using allocLoop_exhausted [of remaining "req # rest"]
      by (simp del: allocLoop.simps add: comp_def)
  next
    case pos: False
    show ?thesis
    proof (cases "remaining \<ge> AgentsNeeded req")
      case True
      with pos Cons.IH [of "remaining - AgentsNeeded req"] show ?thesis
        by (simp only: allocLoop_Cons) (simp add: suffix_Cons)
    next
      case False
      with pos show ?thesis
        by (simp only: allocLoop_Cons) (simp add: allocLoop_exhausted comp_def)
    qed
  qed
qed

text \<open>
  Claim C5, as amended: for a demand list of at most 12 entries, where \<^verbatim>\<open>sort.Slice\<close>
  runs the insertion sort, the entries of any one priority are in the sorted list in the
  order they have in the input; the allocated entries are the first entries of the
  sorted list and the impacted clients are its last entries, in the same order.
\<close>

theorem stable_up_to_maxInsertion:
  assumes "length requests \<le> 12"
  shows "filter (\<lambda>r. Priority r = p) (sort_Slice pdq byPriority requests) =
           filter (\<lambda>r. Priority r = p) requests \<and>
         prefix
           (map (\<lambda>r. (Name r, Priority r))
              (fst (allocLoop (sort_Slice pdq byPriority requests) capacity [] [])))
           (map (\<lambda>r. (Name r, Priority r)) (sort_Slice pdq byPriority requests)) \<and>
         suffix
           (map (\<lambda>ic. (ic_Name ic, ic_Priority ic))
              (snd (allocLoop (sort_Slice pdq byPriority requests) capacity [] [])))
           (map (\<lambda>r. (Name r, Priority r)) (sort_Slice pdq byPriority requests))"
  using assms allocLoop_order [of "sort_Slice pdq byPriority requests" capacity]
    stable_foldl_moveLeft [of p "[]" requests]
  by (simp add: sort_Slice_def maxInsertion_def insertionSort_func_def)

text \<open>
  The theorem at four requests, two of priority 1 and two of priority 2, and capacity 25.
\<close>

theorem stable_up_to_maxInsertion_witness:
  "length tiedRequests \<le> 12 \<and>
   map Name (filter (\<lambda>r. Priority r = 2) (sort_Slice exchangingSort byPriority tiedRequests)) =
     [''X'', ''Z''] \<and>
   map Name (filter (\<lambda>r. Priority r = 2) tiedRequests) = [''X'', ''Z''] \<and>
   map Name (sort_Slice exchangingSort byPriority tiedRequests) = [''Y'', ''W'', ''X'', ''Z''] \<and>
   map Name (fst (allocLoop (sort_Slice exchangingSort byPriority tiedRequests) 25 [] [])) =
     [''Y'', ''W'', ''X''] \<and>
   map ic_Name (snd (allocLoop (sort_Slice exchangingSort byPriority tiedRequests) 25 [] [])) =
     [''X'', ''Z'']"
proof -
  have len: "length tiedRequests \<le> 12" by (simp add: tiedRequests_def)
  have "map Name (sort_Slice exchangingSort byPriority tiedRequests) = [''Y'', ''W'', ''X'', ''Z'']"
    by code_simp
  moreover have
    "map Name (fst (allocLoop (sort_Slice exchangingSort byPriority tiedRequests) 25 [] [])) =
       [''Y'', ''W'', ''X'']"
    by code_simp
  moreover have
    "map ic_Name (snd (allocLoop (sort_Slice exchangingSort byPriority tiedRequests) 25 [] [])) =
       [''X'', ''Z'']"
    by code_simp
  moreover have "map Name (filter (\<lambda>r. Priority r = 2) tiedRequests) = [''X'', ''Z'']"
    by (simp add: tiedRequests_def)
  ultimately show ?thesis
    using len stable_up_to_maxInsertion [OF len, of 2 exchangingSort 25]
    by simp
qed

text \<open>
  Claim C5 as stated, for every demand list, fails beyond 12 entries: with a sort that
  meets the documented contract, the twelve entries of priority 2 do not keep their
  input order, and with capacity 3 the agents go to \<open>e12\<close>, \<open>e6\<close> and \<open>e2\<close> where the
  input order would serve \<open>e0\<close> and \<open>e1\<close>.
\<close>

theorem unstable_beyond_maxInsertion:
  "sorts_by byPriority exchangingSort \<and>
   filter (\<lambda>r. Priority r = 2) (sort_Slice exchangingSort byPriority thirteenRequests) \<noteq>
     filter (\<lambda>r. Priority r = 2) thirteenRequests \<and>
   map Name (fst (allocateWithConstraints exchangingSort thirteenRequests 3)) =
     [''e12'', ''e6'', ''e2'']"
proof -
  have "map Name (filter (\<lambda>r. Priority r = 2)
          (sort_Slice exchangingSort byPriority thirteenRequests)) =
        [''e6'', ''e2'', ''e3'', ''e4'', ''e5'', ''e0'', ''e7'', ''e8'', ''e9'', ''e10'', ''e11'',
         ''e1'']"
    by code_simp
  moreover have "map Name (filter (\<lambda>r. Priority r = 2) thirteenRequests) =
        [''e0'', ''e1'', ''e2'', ''e3'', ''e4'', ''e5'', ''e6'', ''e7'', ''e8'', ''e9'', ''e10'',
         ''e11'']"
    by code_simp
  ultimately have "filter (\<lambda>r. Priority r = 2)
          (sort_Slice exchangingSort byPriority thirteenRequests) \<noteq>
        filter (\<lambda>r. Priority r = 2) thirteenRequests"
    by auto
  moreover have "map Name (fst (allocateWithConstraints exchangingSort thirteenRequests 3)) =
     [''e12'', ''e6'', ''e2'']"
    by code_simp
  ultimately show ?thesis
    using sorts_by_exchangingSort by simp
qed

end
